theory Spec2Isabelle
  imports Main
begin

section \<open>Strings\<close>

text \<open>
  The bridge is TypeScript; its strings are sequences of UTF-16 code units. A string is
  modelled as a \<open>char list\<close> whose characters are read as the code units U+0000 to
  U+00FF, so \<open>length\<close> is the \<^verbatim>\<open>.length\<close> of the source and \<open>slice\<close> cuts at
  the same positions.
\<close>

definition isWhiteSpace :: "char \<Rightarrow> bool" where
  \<comment> \<open>what \<^verbatim>\<open>\s\<close> and \<^verbatim>\<open>trim\<close> accept: TAB, LF, VT, FF, CR, SP and NBSP\<close>
  "isWhiteSpace c =
     (c = CHR 0x09 \<or> c = CHR 0x0A \<or> c = CHR 0x0B \<or> c = CHR 0x0C \<or>
      c = CHR 0x0D \<or> c = CHR 0x20 \<or> c = CHR 0xA0)"

definition isDigit :: "char \<Rightarrow> bool" where
  \<comment> \<open>what \<^verbatim>\<open>\d\<close> accepts\<close>
  "isDigit c = (let n = (of_char c :: nat) in 48 \<le> n \<and> n \<le> 57)"

definition isUpper :: "char \<Rightarrow> bool" where
  "isUpper c = (let n = (of_char c :: nat) in
     (65 \<le> n \<and> n \<le> 90) \<or> (192 \<le> n \<and> n \<le> 222 \<and> n \<noteq> 215))"

definition isLower :: "char \<Rightarrow> bool" where
  "isLower c = (let n = (of_char c :: nat) in
     (97 \<le> n \<and> n \<le> 122) \<or> (224 \<le> n \<and> n \<le> 254 \<and> n \<noteq> 247))"

fun setBit5 :: "bool \<Rightarrow> char \<Rightarrow> char" where
  \<comment> \<open>the two cases of a letter differ by 0x20\<close>
  "setBit5 b (Char b0 b1 b2 b3 b4 b5 b6 b7) = Char b0 b1 b2 b3 b4 b b6 b7"

definition toLowerChar :: "char \<Rightarrow> char" where
  "toLowerChar c = (if isUpper c then setBit5 True c else c)"

definition toLowerCase :: "string \<Rightarrow> string" where
  "toLowerCase s = map toLowerChar s"

definition Canonicalize :: "char \<Rightarrow> char" where
  \<comment> \<open>how a regular expression with the \<^verbatim>\<open>i\<close> flag compares characters: by their
      upper case. A character whose upper case lies beyond U+00FF is left as it is; no
      character of the header pattern is equal to either.\<close>
  "Canonicalize c = (if isLower c then setBit5 False c else c)"

definition trim :: "string \<Rightarrow> string" where
  "trim s = rev (dropWhile isWhiteSpace (rev (dropWhile isWhiteSpace s)))"

definition slice :: "string \<Rightarrow> nat \<Rightarrow> nat \<Rightarrow> string" where
  \<comment> \<open>\<^verbatim>\<open>s.slice(start, end)\<close> for non-negative indices; empty when \<open>end \<le> start\<close>\<close>
  "slice s start end = take (end - start) (drop start s)"

fun includes_str :: "string \<Rightarrow> string \<Rightarrow> bool" where
  \<comment> \<open>\<^verbatim>\<open>s.includes(p)\<close>\<close>
  "includes_str [] p = (p = [])"
| "includes_str (c # cs) p = (take (length p) (c # cs) = p \<or> includes_str cs p)"

definition orEmpty :: "string option \<Rightarrow> string" where
  \<comment> \<open>\<^verbatim>\<open>x ?? ""\<close>, with \<open>None\<close> for null and undefined\<close>
  "orEmpty x = (case x of None \<Rightarrow> [] | Some s \<Rightarrow> s)"

section \<open>Chunking\<close>

text \<open>
  \<^verbatim>\<open>splitMessage\<close> is a while loop over a start index. With \<open>maxLen = 0\<close> and a
  non-empty content the index never advances, so the loop is a partial function: \<open>None\<close>
  is the run that does not return.
\<close>

partial_function (option) splitMessage_loop ::
    "string \<Rightarrow> nat \<Rightarrow> nat \<Rightarrow> string list \<Rightarrow> string list option" where
  "splitMessage_loop content maxLen start chunks =
     (if start < length content
      then (let end = min (start + maxLen) (length content)
            in splitMessage_loop content maxLen end (chunks @ [slice content start end]))
      else Some chunks)"

definition splitMessage :: "string \<Rightarrow> nat \<Rightarrow> string list option" where
  "splitMessage content maxLen = splitMessage_loop content maxLen 0 []"

definition defaultMaxLen :: nat where
  "defaultMaxLen = 1900"

section \<open>Numbers\<close>

text \<open>
  A count is a TypeScript \<^verbatim>\<open>number\<close>, an IEEE double. The counts of this program are
  the initial \<open>-1\<close>, array lengths, the literal \<open>0\<close> and \<^verbatim>\<open>Number\<close> of a digit string,
  so they are integers or positive infinity; NaN never arises. \<^verbatim>\<open>Number\<close> of a digit
  string is its decimal value rounded to the nearest double, ties to even, and infinity
  from \<open>2 ^ 1024\<close> on (ECMAScript requires this rounding up to 20 significant digits
  and lets an engine choose beyond; V8 rounds to nearest throughout).
\<close>

datatype number = Num int | PosInfinity

fun bitLength :: "nat \<Rightarrow> nat" where
  "bitLength n = (if n = 0 then 0 else Suc (bitLength (n div 2)))"

declare bitLength.simps [simp del]

definition roundToDouble :: "nat \<Rightarrow> number" where
  "roundToDouble n =
     (if n < 2 ^ 53 then Num (int n)
      else let e = bitLength n - 53;
               q = n div 2 ^ e;
               r = n mod 2 ^ e;
               half = 2 ^ (e - 1);
               q' = (if half < r \<or> (r = half \<and> odd q) then q + 1 else q);
               v = q' * 2 ^ e
           in if 2 ^ 1024 \<le> v then PosInfinity else Num (int v))"

definition digitsValue :: "string \<Rightarrow> nat" where
  "digitsValue ds = foldl (\<lambda>a c. 10 * a + (of_char c - 48)) 0 ds"

definition Number_digits :: "string \<Rightarrow> number" where
  \<comment> \<open>\<^verbatim>\<open>Number(m[1])\<close>, where the capture is a non-empty run of digits\<close>
  "Number_digits ds = roundToDouble (digitsValue ds)"

section \<open>Parsing the player count\<close>

text \<open>
  The header pattern is \<^verbatim>\<open>/Players?\s+connected\s*\((\d+)\)/i\<close>. Every quantified atom
  of it is followed by an atom that rejects what the quantifier accepts (a white space
  is no letter, a digit is no parenthesis), so at a given start the greedy choice is the
  only one that can succeed and the matcher runs left to right without backtracking.
  \<^verbatim>\<open>match\<close> without the \<^verbatim>\<open>g\<close> flag takes the leftmost start that succeeds.
\<close>

fun matchLiteral :: "string \<Rightarrow> string \<Rightarrow> string option" where
  \<comment> \<open>the literal, compared without regard to case; the result is the rest of the input\<close>
  "matchLiteral [] s = Some s"
| "matchLiteral (p # ps) [] = None"
| "matchLiteral (p # ps) (c # cs) =
     (if Canonicalize c = Canonicalize p then matchLiteral ps cs else None)"

definition matchOptional :: "char \<Rightarrow> string \<Rightarrow> string" where
  "matchOptional p s =
     (case s of [] \<Rightarrow> s | c # cs \<Rightarrow> if Canonicalize c = Canonicalize p then cs else s)"

definition matchHeaderAt :: "string \<Rightarrow> string option" where
  \<comment> \<open>the pattern at the start of the input; the result is capture group 1\<close>
  "matchHeaderAt s =
     (case matchLiteral ''player'' s of None \<Rightarrow> None | Some s1 \<Rightarrow>
        let s2 = matchOptional (CHR ''s'') s1 in
        if takeWhile isWhiteSpace s2 = [] then None
        else (case matchLiteral ''connected'' (dropWhile isWhiteSpace s2) of None \<Rightarrow> None
          | Some s3 \<Rightarrow>
             (case matchLiteral ''('' (dropWhile isWhiteSpace s3) of None \<Rightarrow> None
              | Some s4 \<Rightarrow>
                 if takeWhile isDigit s4 = [] then None
                 else (case matchLiteral '')'' (dropWhile isDigit s4) of None \<Rightarrow> None
                   | Some s5 \<Rightarrow> Some (takeWhile isDigit s4)))))"

fun matchHeader :: "string \<Rightarrow> string option" where
  \<comment> \<open>\<^verbatim>\<open>text.match(...)\<close>: capture group 1 of the leftmost match\<close>
  "matchHeader [] = matchHeaderAt []"
| "matchHeader (c # cs) =
     (case matchHeaderAt (c # cs) of Some ds \<Rightarrow> Some ds | None \<Rightarrow> matchHeader cs)"

fun splitLines :: "string \<Rightarrow> string list" where
  \<comment> \<open>\<^verbatim>\<open>text.split(/\r?\n/)\<close>\<close>
  "splitLines [] = [[]]"
| "splitLines [c] = (if c = CHR 0x0A then [[], []] else [[c]])"
| "splitLines (c # d # cs) =
     (if c = CHR 0x0A then [] # splitLines (d # cs)
      else if c = CHR 0x0D \<and> d = CHR 0x0A then [] # splitLines cs
      else (case splitLines (d # cs) of [] \<Rightarrow> [[c]] | l # ls \<Rightarrow> (c # l) # ls))"

definition nonEmptyLines :: "string \<Rightarrow> string list" where
  \<comment> \<open>\<^verbatim>\<open>text.split(/\r?\n/).map((l) => l.trim()).filter(Boolean)\<close>\<close>
  "nonEmptyLines text = filter (\<lambda>l. l \<noteq> []) (map trim (splitLines text))"

definition parsePlayerCount :: "string \<Rightarrow> number" where
  "parsePlayerCount text =
     (case matchHeader text of
        Some ds \<Rightarrow> Number_digits ds
      | None \<Rightarrow>
          (case nonEmptyLines text of
             [] \<Rightarrow> Num 0
           | first # others \<Rightarrow>
               let rest = (if includes_str (toLowerCase first) ''player'' then others
                           else first # others)
               in Num (int (length rest))))"

section \<open>The outside world\<close>

text \<open>
  The RCON session and the Discord client are libraries outside the repository. Every
  call to them is an event of the run; the environment answers a call, given the events
  so far, with a value or with a fault. A fault is an \<^verbatim>\<open>Error\<close> object, kept as the
  string \<^verbatim>\<open>err.toString()\<close> renders. Logging and sleeping cannot fail.
\<close>

type_synonym fault = string

datatype event =
    Log string                \<comment> \<open>\<^verbatim>\<open>console.log(msg)\<close>\<close>
  | LogError string fault     \<comment> \<open>\<^verbatim>\<open>console.error(label, err)\<close>\<close>
  | Connect                   \<comment> \<open>\<^verbatim>\<open>Rcon.connect\<close> to the configured host, timeout 15000\<close>
  | RconSend string           \<comment> \<open>\<^verbatim>\<open>rcon.send(command)\<close>\<close>
  | RconEnd                   \<comment> \<open>\<^verbatim>\<open>rcon.end()\<close>\<close>
  | SetPresence number        \<comment> \<open>\<^verbatim>\<open>client.user.setPresence\<close>, the activity named after the count\<close>
  | SetTopic number           \<comment> \<open>\<^verbatim>\<open>setTopic(`Players online: ${count}`)\<close>\<close>
  | ChannelSend string        \<comment> \<open>\<^verbatim>\<open>targetChannel.send(part)\<close>\<close>
  | Sleep nat                 \<comment> \<open>\<^verbatim>\<open>sleep(ms)\<close>\<close>

datatype reply = Reply "string option" | Fault fault

type_synonym env = "event list \<Rightarrow> event \<Rightarrow> reply"

datatype channel = Channel (has_setTopic: bool)

record state =
  targetChannel :: "channel option"   \<comment> \<open>null until the ready handler resolves it\<close>
  lastCount :: number
  rcon :: bool                        \<comment> \<open>the local \<^verbatim>\<open>rcon\<close> of the running poll: a session or null\<close>
  trace :: "event list"               \<comment> \<open>the events so far, oldest first\<close>

record config =
  RCON_HOST :: string
  RCON_PORT :: string

datatype 'a outcome = Return 'a | Throw fault | Diverge

type_synonym 'a io = "env \<Rightarrow> state \<Rightarrow> 'a outcome \<times> state"

definition io_return :: "'a \<Rightarrow> 'a io" where
  "io_return a = (\<lambda>env s. (Return a, s))"

definition io_bind :: "'a io \<Rightarrow> ('a \<Rightarrow> 'b io) \<Rightarrow> 'b io" where
  "io_bind m f = (\<lambda>env s.
     case m env s of
       (Return a, s') \<Rightarrow> f a env s'
     | (Throw e, s') \<Rightarrow> (Throw e, s')
     | (Diverge, s') \<Rightarrow> (Diverge, s'))"

definition io_then :: "'a io \<Rightarrow> 'b io \<Rightarrow> 'b io" where
  "io_then m n = io_bind m (\<lambda>_. n)"

definition try_catch :: "'a io \<Rightarrow> (fault \<Rightarrow> 'a io) \<Rightarrow> 'a io" where
  "try_catch m h = (\<lambda>env s.
     case m env s of
       (Throw e, s') \<Rightarrow> h e env s'
     | (Return a, s') \<Rightarrow> (Return a, s')
     | (Diverge, s') \<Rightarrow> (Diverge, s'))"

definition try_finally :: "'a io \<Rightarrow> unit io \<Rightarrow> 'a io" where
  \<comment> \<open>the finaliser runs after a return and after a throw; its own throw replaces the
      outcome\<close>
  "try_finally m fin = (\<lambda>env s.
     case m env s of
       (Diverge, s') \<Rightarrow> (Diverge, s')
     | (r, s') \<Rightarrow>
         (case fin env s' of
            (Return _, s'') \<Rightarrow> (r, s'')
          | (Throw e, s'') \<Rightarrow> (Throw e, s'')
          | (Diverge, s'') \<Rightarrow> (Diverge, s'')))"

definition emit :: "event \<Rightarrow> unit io" where
  \<comment> \<open>an event that cannot fail\<close>
  "emit ev = (\<lambda>env s. (Return (), s\<lparr>trace := trace s @ [ev]\<rparr>))"

definition perform :: "event \<Rightarrow> string option io" where
  \<comment> \<open>a call to a library: the environment decides between a value and a fault\<close>
  "perform ev = (\<lambda>env s.
     case env (trace s) ev of
       Reply v \<Rightarrow> (Return v, s\<lparr>trace := trace s @ [ev]\<rparr>)
     | Fault e \<Rightarrow> (Throw e, s\<lparr>trace := trace s @ [ev]\<rparr>))"

definition emitted :: "state \<Rightarrow> state \<Rightarrow> event list" where
  \<comment> \<open>the events of a run from \<open>s\<close> to \<open>s'\<close>\<close>
  "emitted s s' = drop (length (trace s)) (trace s')"

fun sends :: "event list \<Rightarrow> string list" where
  "sends [] = []"
| "sends (ChannelSend m # evs) = m # sends evs"
| "sends (_ # evs) = sends evs"

fun sleeps :: "event list \<Rightarrow> nat list" where
  "sleeps [] = []"
| "sleeps (Sleep ms # evs) = ms # sleeps evs"
| "sleeps (_ # evs) = sleeps evs"

fun topicWrites :: "event list \<Rightarrow> number list" where
  "topicWrites [] = []"
| "topicWrites (SetTopic c # evs) = c # topicWrites evs"
| "topicWrites (_ # evs) = topicWrites evs"

fun presences :: "event list \<Rightarrow> number list" where
  "presences [] = []"
| "presences (SetPresence c # evs) = c # presences evs"
| "presences (_ # evs) = presences evs"

section \<open>Presence and topic\<close>

definition updateChannelTopicIfChanged :: "number \<Rightarrow> unit io" where
  "updateChannelTopicIfChanged count = (\<lambda>env s.
     case targetChannel s of
       None \<Rightarrow> (Return (), s)
     | Some ch \<Rightarrow>
         if count = lastCount s then (Return (), s)
         else
           (if has_setTopic ch
            then try_catch (io_then (perform (SetTopic count)) (io_return ()))
                   (\<lambda>e. emit (LogError ''Failed to set topic:'' e))
            else io_return ())
           env (s\<lparr>lastCount := count\<rparr>))"

definition setPresence :: "number \<Rightarrow> unit io" where
  \<comment> \<open>polls run after the ready event only, when \<^verbatim>\<open>client.user\<close> is set\<close>
  "setPresence count = io_then (perform (SetPresence count)) (io_return ())"

section \<open>One poll\<close>

definition COMMAND :: string where
  "COMMAND = ''luacmd rconevents flush''"

definition isConnectionClosed :: "fault \<Rightarrow> bool" where
  \<comment> \<open>\<^verbatim>\<open>err.toString().toLowerCase() == "error: connection closed"\<close>\<close>
  "isConnectionClosed err = (toLowerCase err = ''error: connection closed'')"

definition queryPlayers :: "unit io" where
  \<comment> \<open>step 1 of the try block, with its own handler\<close>
  "queryPlayers =
     try_catch
       (io_bind (perform (RconSend ''players'')) (\<lambda>playersResp.
          let count = parsePlayerCount (orEmpty playersResp) in
          io_then (setPresence count) (updateChannelTopicIfChanged count)))
       (\<lambda>err.
          if isConnectionClosed err
          then io_then (setPresence (Num 0)) (updateChannelTopicIfChanged (Num 0))
          else emit (LogError ''RCON poll error:'' err))"

fun sendAll :: "string list \<Rightarrow> unit io" where
  \<comment> \<open>\<^verbatim>\<open>for (const part of parts) await targetChannel.send(part)\<close>\<close>
  "sendAll [] = io_return ()"
| "sendAll (part # parts) = io_then (perform (ChannelSend part)) (sendAll parts)"

definition onlyWhiteSpace :: "string option \<Rightarrow> bool" where
  \<comment> \<open>\<^verbatim>\<open>!response || !response.replace(/\s+/g, "")\<close>\<close>
  "onlyWhiteSpace response =
     (case response of None \<Rightarrow> True
      | Some r \<Rightarrow> r = [] \<or> filter (\<lambda>c. \<not> isWhiteSpace c) r = [])"

definition publish :: "string option \<Rightarrow> unit io" where
  \<comment> \<open>the try block after the response of the event command has arrived\<close>
  "publish response =
     (let trimmed = trim (orEmpty response) in
      if trimmed = [] then emit (Log ''response empty'')
      else (\<lambda>env s.
        case targetChannel s of
          None \<Rightarrow> emit (Log ''targetChannel empty'') env s
        | Some ch \<Rightarrow>
            io_then (emit (Log ''response:''))
              (io_then (emit (Log (orEmpty response)))
                 (if onlyWhiteSpace response then io_return ()
                  else (case splitMessage trimmed defaultMaxLen of
                          None \<Rightarrow> (\<lambda>env s. (Diverge, s))
                        | Some parts \<Rightarrow> sendAll parts)))
            env s))"

definition pollingMessage :: "config \<Rightarrow> string" where
  \<comment> \<open>\<^verbatim>\<open>`polling ${RCON_HOST}:${RCON_PORT}`\<close>\<close>
  "pollingMessage cfg = ''polling '' @ RCON_HOST cfg @ '':'' @ RCON_PORT cfg"

definition pollOnce_try :: "config \<Rightarrow> unit io" where
  "pollOnce_try cfg =
     io_then (emit (Log (pollingMessage cfg)))
       (io_then (perform Connect)
          (io_then (\<lambda>env s. (Return (), s\<lparr>rcon := True\<rparr>))
             (io_then queryPlayers
                (io_bind (perform (RconSend COMMAND)) publish))))"

definition pollOnce_catch :: "fault \<Rightarrow> unit io" where
  "pollOnce_catch err =
     io_then
       (if isConnectionClosed err then emit (Log ''Connection closed.'')
        else emit (LogError ''RCON poll error:'' err))
       (io_then (emit (Log ''waiting 1 minute...'')) (emit (Sleep (1000 * 60))))"

definition pollOnce_finally :: "unit io" where
  \<comment> \<open>\<^verbatim>\<open>try { await rcon?.end(); } catch { }\<close>\<close>
  "pollOnce_finally =
     try_catch
       (\<lambda>env s. if rcon s then io_then (perform RconEnd) (io_return ()) env s
                 else (Return (), s))
       (\<lambda>_. io_return ())"

definition pollOnce :: "config \<Rightarrow> unit io" where
  "pollOnce cfg = (\<lambda>env s.
     try_finally (try_catch (pollOnce_try cfg) pollOnce_catch) pollOnce_finally
       env (s\<lparr>rcon := False\<rparr>))"

section \<open>Texts built from lines\<close>

text \<open>
  The fallback of the parser counts lines. Its results are stated for a text given as
  the list of its lines, joined by line feeds.
\<close>

fun joinLines :: "string list \<Rightarrow> string" where
  "joinLines [] = []"
| "joinLines [l] = l"
| "joinLines (l # m # ls) = l @ CHR 0x0A # joinLines (m # ls)"

definition chomp :: "string \<Rightarrow> string" where
  \<comment> \<open>a line without the carriage return that \<^verbatim>\<open>/\r?\n/\<close> takes with the line feed\<close>
  "chomp l = (if l \<noteq> [] \<and> last l = CHR 0x0D then butlast l else l)"

section \<open>Example runs\<close>

text \<open>Concrete environments and states, used to run the model on explicit inputs.\<close>

definition cfg_example :: config where
  "cfg_example = \<lparr>RCON_HOST = ''127.0.0.1'', RCON_PORT = ''27015''\<rparr>"

definition state_ready :: state where
  \<comment> \<open>after the ready handler: the channel is resolved, nothing published yet\<close>
  "state_ready =
     \<lparr>targetChannel = Some (Channel True), lastCount = Num (- 1), rcon = False, trace = []\<rparr>"

definition state_unresolved :: state where
  "state_unresolved =
     \<lparr>targetChannel = None, lastCount = Num (- 1), rcon = False, trace = []\<rparr>"

definition env_topic_fails :: env where
  \<comment> \<open>every topic write is rejected, every other call succeeds\<close>
  "env_topic_fails h ev =
     (case ev of
        SetTopic c \<Rightarrow> Fault ''DiscordAPIError[50013]: Missing Permissions''
      | _ \<Rightarrow> Reply None)"

definition env_quiet_then_event :: env where
  \<comment> \<open>the event command is answered with white space early in the trace and with an
      event later on\<close>
  "env_quiet_then_event h ev =
     (case ev of
        RconSend c \<Rightarrow>
          if c = ''players''
          then Reply (Some ''Players connected (2):\<newline>Alice\<newline>Bob'')
          else if length h < 8 then Reply (Some ''   \<newline>  '')
          else Reply (Some ''Alice joined'')
      | _ \<Rightarrow> Reply None)"

definition env_connect_closed :: env where
  \<comment> \<open>the server is paused: the connect attempt is closed on\<close>
  "env_connect_closed h ev =
     (case ev of Connect \<Rightarrow> Fault ''Error: Connection closed'' | _ \<Rightarrow> Reply None)"

definition env_players_closed :: env where
  \<comment> \<open>only the players query meets a closed connection\<close>
  "env_players_closed h ev =
     (case ev of
        RconSend c \<Rightarrow>
          if c = ''players'' then Fault ''Error: Connection closed'' else Reply (Some [])
      | _ \<Rightarrow> Reply None)"

definition env_players_timeout :: env where
  \<comment> \<open>only the players query fails, with a timeout\<close>
  "env_players_timeout h ev =
     (case ev of
        RconSend c \<Rightarrow>
          if c = ''players'' then Fault ''Error: Timeout for packet id 1'' else Reply (Some [])
      | _ \<Rightarrow> Reply None)"

section \<open>Unfolding rules\<close>

lemmas io_defs = io_return_def io_bind_def io_then_def try_catch_def try_finally_def
  emit_def perform_def

lemmas parse_defs = parsePlayerCount_def matchHeaderAt_def matchOptional_def Canonicalize_def
  isLower_def isWhiteSpace_def isDigit_def Number_digits_def digitsValue_def roundToDouble_def
  nonEmptyLines_def trim_def toLowerCase_def toLowerChar_def isUpper_def Let_def

lemmas run_defs = pollOnce_def pollOnce_try_def pollOnce_catch_def pollOnce_finally_def
  queryPlayers_def publish_def setPresence_def updateChannelTopicIfChanged_def
  pollingMessage_def isConnectionClosed_def toLowerCase_def toLowerChar_def isUpper_def
  orEmpty_def onlyWhiteSpace_def COMMAND_def Let_def io_defs

section \<open>Chunking: results\<close>

text \<open>
  The loop invariant: from a start index inside the content, the loop returns, and what
  it adds to the chunks is the rest of the content cut into pieces of at most \<open>maxLen\<close>.
\<close>

lemma splitMessage_loop_inv:
  assumes "0 < maxLen"
  shows "start \<le> length content \<Longrightarrow>
    \<exists>cs. splitMessage_loop content maxLen start chunks = Some (chunks @ cs)
       \<and> concat cs = drop start content
       \<and> length cs = (length content - start + maxLen - 1) div maxLen
       \<and> list_all (\<lambda>c. length c \<le> maxLen) cs"
proof (induction "length content - start" arbitrary: start chunks rule: less_induct)
  case less
  show ?case
  proof (cases "start < length content")
    case False
    with less.prems have "start = length content" by simp
    with assms show ?thesis
      by (subst splitMessage_loop.simps) simp
  next
    case True
    define e where "e = min (start + maxLen) (length content)"
    have e_le: "e \<le> length content" and e_gt: "start < e"
      using True assms by (simp_all add: e_def)
    have "length content - e < length content - start"
      using True e_gt e_le by arith
    from less.hyps [OF this e_le, of "chunks @ [slice content start e]"]
    obtain cs where cs:
      "splitMessage_loop content maxLen e (chunks @ [slice content start e])
         = Some ((chunks @ [slice content start e]) @ cs)"
      "concat cs = drop e content"
      "length cs = (length content - e + maxLen - 1) div maxLen"
      "list_all (\<lambda>c. length c \<le> maxLen) cs"
      by blast
    have step: "splitMessage_loop content maxLen start chunks
        = splitMessage_loop content maxLen e (chunks @ [slice content start e])"
      using True by (subst splitMessage_loop.simps) (simp add: e_def Let_def)
    have cat: "slice content start e @ drop e content = drop start content"
    proof -
      have "drop e content = drop (e - start) (drop start content)"
        using e_gt by simp
      then show ?thesis
        unfolding slice_def by (simp only: append_take_drop_id)
    qed
    have len: "length (slice content start e) \<le> maxLen"
      by (simp add: slice_def e_def)
    have cnt: "Suc ((length content - e + maxLen - 1) div maxLen)
        = (length content - start + maxLen - 1) div maxLen"
    proof (cases "start + maxLen \<le> length content")
      case True
      then have "e = start + maxLen" by (simp add: e_def)
      define a where "a = length content - e + maxLen - 1"
      have "length content - start + maxLen - 1 = a + maxLen"
        unfolding a_def using True assms \<open>e = start + maxLen\<close> by arith
      moreover have "(a + maxLen) div maxLen = Suc (a div maxLen)"
        by (subst div_add_self2) (use assms in simp_all)
      ultimately show ?thesis
        unfolding a_def by (simp only:)
    next
      case False
      then have e: "e = length content" by (simp add: e_def)
      have "0 < length content - start" "length content - start < maxLen"
        using False \<open>start < length content\<close> by arith+
      then have "(length content - start + maxLen - 1) div maxLen = 1"
        using assms by (intro div_nat_eqI) simp_all
      moreover have "(length content - e + maxLen - 1) div maxLen = 0"
        using e assms by simp
      ultimately show ?thesis by simp
    qed
    show ?thesis
      using cs step cat len cnt
      by (intro exI [of _ "slice content start e # cs"]) simp
  qed
qed

lemma splitMessage_default_returns: "\<exists>parts. splitMessage content defaultMaxLen = Some parts"
  using splitMessage_loop_inv [of defaultMaxLen 0 content "[]"]
  by (auto simp: splitMessage_def defaultMaxLen_def)

text \<open>
  C4. For a content of length \<open>L > 0\<close> and a chunk size \<open>M > 0\<close>, \<^verbatim>\<open>splitMessage\<close>
  returns, with \<open>ceil(L/M)\<close> chunks, none longer than \<open>M\<close>, whose concatenation in order
  is the content; for \<open>L = 5000\<close> and \<open>M = 1900\<close> the chunk lengths are 1900, 1900
  and 1200.
\<close>

theorem splitMessage_chunks:
  assumes "0 < length content" and "0 < maxLen"
  shows "\<exists>chunks. splitMessage content maxLen = Some chunks
      \<and> length chunks = (length content + maxLen - 1) div maxLen
      \<and> list_all (\<lambda>c. length c \<le> maxLen) chunks
      \<and> concat chunks = content
      \<and> (if length content = 5000 \<and> maxLen = 1900
           then map length chunks = [1900, 1900, 1200] else True)"
proof -
  from splitMessage_loop_inv [OF assms(2), of 0 content "[]"]
  obtain cs where cs: "splitMessage content maxLen = Some cs"
      "concat cs = content"
      "length cs = (length content + maxLen - 1) div maxLen"
      "list_all (\<lambda>c. length c \<le> maxLen) cs"
    by (auto simp: splitMessage_def)
  have "map length cs = [1900, 1900, 1200]"
    if L: "length content = 5000" and M: "maxLen = 1900"
  proof -
    have "splitMessage content maxLen
        = Some [slice content 0 1900, slice content 1900 3800, slice content 3800 5000]"
      unfolding splitMessage_def M
      apply (subst splitMessage_loop.simps, simp add: L)
      apply (subst splitMessage_loop.simps, simp add: L)
      apply (subst splitMessage_loop.simps, simp add: L)
      apply (subst splitMessage_loop.simps, simp add: L)
      done
    with cs(1) have "cs = [slice content 0 1900, slice content 1900 3800, slice content 3800 5000]"
      by simp
    then show ?thesis by (simp add: slice_def L)
  qed
  with cs show ?thesis by auto
qed

theorem splitMessage_chunks_witness:
  "0 < length ''abcde'' \<and> 0 < (2::nat) \<and>
   (\<exists>chunks. splitMessage ''abcde'' 2 = Some chunks \<and> length chunks = 3 \<and>
      list_all (\<lambda>c. length c \<le> 2) chunks \<and> concat chunks = ''abcde'')"
  using splitMessage_chunks [of "''abcde''" 2] by (simp add: numeral_3_eq_3)

section \<open>The topic updater: results\<close>

lemma sends_append [simp]: "sends (xs @ ys) = sends xs @ sends ys"
  by (induction xs rule: sends.induct) simp_all

lemma sleeps_append [simp]: "sleeps (xs @ ys) = sleeps xs @ sleeps ys"
  by (induction xs rule: sleeps.induct) simp_all

lemma topicWrites_append [simp]: "topicWrites (xs @ ys) = topicWrites xs @ topicWrites ys"
  by (induction xs rule: topicWrites.induct) simp_all

lemma presences_append [simp]: "presences (xs @ ys) = presences xs @ presences ys"
  by (induction xs rule: presences.induct) simp_all

lemma emitted_append [simp]: "trace s' = trace s @ evs \<Longrightarrow> emitted s s' = evs"
  by (simp add: emitted_def)

lemma trace_rcon_update [simp]:
  "s\<lparr>trace := t, rcon := b\<rparr> = s\<lparr>rcon := b, trace := t\<rparr>"
  by (cases s) simp

lemma update_result:
  "updateChannelTopicIfChanged c env s = (r, s') \<Longrightarrow>
     r = Return () \<and> targetChannel s' = targetChannel s \<and> rcon s' = rcon s \<and>
     (targetChannel s = None \<or> lastCount s' = c) \<and>
     (\<exists>evs. trace s' = trace s @ evs \<and> length (topicWrites evs) \<le> 1 \<and>
        sends evs = [] \<and> sleeps evs = [] \<and> presences evs = [] \<and>
        RconSend COMMAND \<notin> set evs)"
  by (auto simp: updateChannelTopicIfChanged_def io_defs
      split: option.splits if_splits reply.splits)

lemma update_again:
  "targetChannel s = None \<or> lastCount s = c \<Longrightarrow>
     updateChannelTopicIfChanged c env s = (Return (), s)"
  by (auto simp: updateChannelTopicIfChanged_def split: option.splits)

text \<open>
  C10. While the target channel is not resolved, \<^verbatim>\<open>updateChannelTopicIfChanged\<close> returns
  at once for every count: the state, and with it \<open>lastCount\<close> and the trace of calls, is
  the one it was given, so no topic write took place.
\<close>

theorem update_unresolved:
  "targetChannel s = None \<Longrightarrow> updateChannelTopicIfChanged c env s = (Return (), s)"
  by (simp add: updateChannelTopicIfChanged_def)

theorem update_unresolved_witness:
  "targetChannel state_unresolved = None \<and>
   updateChannelTopicIfChanged (Num 3) env_topic_fails state_unresolved
     = (Return (), state_unresolved)"
proof -
  have h: "targetChannel state_unresolved = None"
    by (simp add: state_unresolved_def)
  from update_unresolved [OF h] h show ?thesis by simp
qed

text \<open>
  C8. Two invocations of \<^verbatim>\<open>updateChannelTopicIfChanged\<close> in a row with the same count
  write the topic at most once: the second one changes nothing and writes nothing.
\<close>

theorem update_twice:
  assumes "updateChannelTopicIfChanged c env s = (r1, s1)"
    and "updateChannelTopicIfChanged c env s1 = (r2, s2)"
  shows "s2 = s1 \<and> topicWrites (emitted s1 s2) = [] \<and>
         length (topicWrites (emitted s s2)) \<le> 1"
proof -
  from update_result [OF assms(1)] obtain evs where
    a: "targetChannel s1 = None \<or> lastCount s1 = c" and
    evs: "trace s1 = trace s @ evs" "length (topicWrites evs) \<le> 1"
    by auto
  from update_again [OF a, of env] assms(2) have "s2 = s1" by simp
  with evs show ?thesis by (simp add: emitted_def)
qed

theorem update_twice_witness:
  "(let s1 = snd (updateChannelTopicIfChanged (Num 2) env_topic_fails state_ready);
        s2 = snd (updateChannelTopicIfChanged (Num 2) env_topic_fails s1)
    in s2 = s1 \<and> topicWrites (emitted s1 s2) = [] \<and>
       length (topicWrites (emitted state_ready s2)) \<le> 1)"
  unfolding Let_def
  by (rule update_twice [OF surjective_pairing surjective_pairing])

text \<open>
  C2, as the code has it. With the channel resolved and a count that differs from
  \<open>lastCount\<close>, \<^verbatim>\<open>updateChannelTopicIfChanged\<close> stores the count in \<open>lastCount\<close> before
  it attempts the topic write. Afterwards \<open>lastCount\<close> is the new count whether the write
  succeeded or failed; a failed write is logged, and the next invocation with the same
  count returns without writing.
\<close>

theorem update_sets_lastCount_first:
  assumes "targetChannel s = Some ch" and "c \<noteq> lastCount s"
    and "updateChannelTopicIfChanged c env s = (r, s')"
  shows "r = Return () \<and> lastCount s' = c \<and>
         updateChannelTopicIfChanged c env s' = (Return (), s') \<and>
         emitted s s' =
           (if has_setTopic ch
            then SetTopic c # (case env (trace s) (SetTopic c) of
                                 Fault e \<Rightarrow> [LogError ''Failed to set topic:'' e]
                               | Reply v \<Rightarrow> [])
            else [])"
  using assms
  by (auto simp: updateChannelTopicIfChanged_def io_defs emitted_def
      split: option.splits if_splits reply.splits)

theorem update_sets_lastCount_first_witness:
  "targetChannel state_ready = Some (Channel True) \<and> Num 2 \<noteq> lastCount state_ready \<and>
   lastCount (snd (updateChannelTopicIfChanged (Num 2) env_topic_fails state_ready)) = Num 2"
proof -
  have h: "targetChannel state_ready = Some (Channel True)" "Num 2 \<noteq> lastCount state_ready"
    by (simp_all add: state_ready_def)
  from update_sets_lastCount_first [OF h surjective_pairing, of env_topic_fails] h
  show ?thesis by simp
qed

text \<open>
  C2 as stated fails: from \<open>lastCount = -1\<close>, a rejected topic write for the count 2
  leaves \<open>lastCount = 2\<close>, and a second invocation with 2 adds no call to the trace.
\<close>

theorem update_failed_write_counterexample:
  "lastCount state_ready = Num (- 1) \<and>
   env_topic_fails (trace state_ready) (SetTopic (Num 2))
     = Fault ''DiscordAPIError[50013]: Missing Permissions'' \<and>
   lastCount (snd (updateChannelTopicIfChanged (Num 2) env_topic_fails state_ready)) = Num 2 \<and>
   trace (snd (updateChannelTopicIfChanged (Num 2) env_topic_fails state_ready))
     = [SetTopic (Num 2),
        LogError ''Failed to set topic:'' ''DiscordAPIError[50013]: Missing Permissions''] \<and>
   trace (snd (updateChannelTopicIfChanged (Num 2) env_topic_fails
            (snd (updateChannelTopicIfChanged (Num 2) env_topic_fails state_ready))))
     = [SetTopic (Num 2),
        LogError ''Failed to set topic:'' ''DiscordAPIError[50013]: Missing Permissions'']"
  by (simp add: updateChannelTopicIfChanged_def io_defs state_ready_def env_topic_fails_def)

section \<open>One poll: results\<close>

text \<open>
  The handler of the poll and its finaliser are straight-line code: the handler logs,
  announces the pause and sleeps; the finaliser closes the session if there is one and
  swallows what closing throws.
\<close>

lemma pollOnce_catch_eq:
  "pollOnce_catch e env s =
     (Return (), s\<lparr>trace := trace s @
        [if isConnectionClosed e then Log ''Connection closed.''
         else LogError ''RCON poll error:'' e,
         Log ''waiting 1 minute...'', Sleep 60000]\<rparr>)"
  by (simp add: pollOnce_catch_def io_defs)

lemma pollOnce_finally_eq:
  "pollOnce_finally env s =
     (Return (), if rcon s then s\<lparr>trace := trace s @ [RconEnd]\<rparr> else s)"
  by (simp add: pollOnce_finally_def io_defs split: reply.splits)

lemma pollOnce_eq:
  "pollOnce cfg env s =
     (case pollOnce_try cfg env (s\<lparr>rcon := False\<rparr>) of
        (Return u, s1) \<Rightarrow> (Return (), snd (pollOnce_finally env s1))
      | (Throw e, s1) \<Rightarrow> (Return (), snd (pollOnce_finally env (snd (pollOnce_catch e env s1))))
      | (Diverge, s1) \<Rightarrow> (Diverge, s1))"
  by (simp add: pollOnce_def try_finally_def try_catch_def pollOnce_catch_eq pollOnce_finally_eq
      split: prod.splits outcome.splits)

lemma setPresence_eq:
  "setPresence c env s =
     (case env (trace s) (SetPresence c) of
        Reply v \<Rightarrow> (Return (), s\<lparr>trace := trace s @ [SetPresence c]\<rparr>)
      | Fault e \<Rightarrow> (Throw e, s\<lparr>trace := trace s @ [SetPresence c]\<rparr>))"
  by (simp add: setPresence_def io_defs split: reply.splits)

text \<open>
  What the steps of the try block can do: none of them fails to return, none touches
  the channel handle or the session variable, and the players query neither sends to
  the channel, nor sleeps, nor issues the event command.
\<close>

lemma presence_update_result:
  assumes "io_then (setPresence c) (updateChannelTopicIfChanged c) env s = (r, s')"
  shows "r \<noteq> Diverge \<and> targetChannel s' = targetChannel s \<and> rcon s' = rcon s \<and>
     (\<exists>evs. trace s' = trace s @ evs \<and> sends evs = [] \<and> sleeps evs = [] \<and>
        RconSend COMMAND \<notin> set evs)"
proof (cases "env (trace s) (SetPresence c)")
  case (Fault e)
  with assms show ?thesis
    by (auto simp: io_then_def io_bind_def setPresence_eq)
next
  case (Reply v)
  define s1 where "s1 = s\<lparr>trace := trace s @ [SetPresence c]\<rparr>"
  from Reply assms have "updateChannelTopicIfChanged c env s1 = (r, s')"
    by (simp add: io_then_def io_bind_def setPresence_eq s1_def)
  from update_result [OF this] show ?thesis
    by (auto simp: s1_def)
qed

lemma queryPlayers_result:
  assumes "queryPlayers env s = (r, s')"
  shows "r \<noteq> Diverge \<and> targetChannel s' = targetChannel s \<and> rcon s' = rcon s \<and>
     (\<exists>evs. trace s' = trace s @ evs \<and> sends evs = [] \<and> sleeps evs = [] \<and>
        RconSend COMMAND \<notin> set evs)"
proof -
  define s1 where "s1 = s\<lparr>trace := trace s @ [RconSend ''players'']\<rparr>"
  have s1: "targetChannel s1 = targetChannel s" "rcon s1 = rcon s"
    "trace s1 = trace s @ [RconSend ''players'']"
    by (simp_all add: s1_def)
  have handler: ?thesis
    if h: "(if isConnectionClosed e
            then io_then (setPresence (Num 0)) (updateChannelTopicIfChanged (Num 0))
            else emit (LogError ''RCON poll error:'' e)) env s2 = (r, s')"
      and s2: "targetChannel s2 = targetChannel s" "rcon s2 = rcon s"
        "\<exists>evs. trace s2 = trace s @ evs \<and> sends evs = [] \<and> sleeps evs = [] \<and>
            RconSend COMMAND \<notin> set evs"
    for e s2
  proof (cases "isConnectionClosed e")
    case True
    with h presence_update_result [of "Num 0" env s2 r s'] s2 show ?thesis
      by (auto simp: COMMAND_def)
  next
    case False
    with h s2 show ?thesis
      by (auto simp: emit_def)
  qed
  show ?thesis
  proof (cases "env (trace s) (RconSend ''players'')")
    case (Fault e)
    with assms have "(if isConnectionClosed e
            then io_then (setPresence (Num 0)) (updateChannelTopicIfChanged (Num 0))
            else emit (LogError ''RCON poll error:'' e)) env s1 = (r, s')"
      by (simp add: queryPlayers_def try_catch_def io_bind_def perform_def s1_def)
    then show ?thesis
      by (rule handler) (simp_all add: s1 COMMAND_def)
  next
    case (Reply v)
    define c where "c = parsePlayerCount (orEmpty v)"
    obtain r1 s2 where body: "io_then (setPresence c) (updateChannelTopicIfChanged c) env s1 = (r1, s2)"
      by (cases "io_then (setPresence c) (updateChannelTopicIfChanged c) env s1")
    from presence_update_result [OF body] s1
    have s2: "r1 \<noteq> Diverge" "targetChannel s2 = targetChannel s" "rcon s2 = rcon s"
        "\<exists>evs. trace s2 = trace s @ evs \<and> sends evs = [] \<and> sleeps evs = [] \<and>
            RconSend COMMAND \<notin> set evs"
      by (auto simp: COMMAND_def)
    show ?thesis
    proof (cases r1)
      case (Return u)
      with Reply assms body have "r = Return u" "s' = s2"
        by (simp_all add: queryPlayers_def try_catch_def io_bind_def perform_def s1_def c_def Let_def)
      with s2 show ?thesis by simp
    next
      case (Throw e)
      with Reply assms body have "(if isConnectionClosed e
            then io_then (setPresence (Num 0)) (updateChannelTopicIfChanged (Num 0))
            else emit (LogError ''RCON poll error:'' e)) env s2 = (r, s')"
        by (simp add: queryPlayers_def try_catch_def io_bind_def perform_def s1_def c_def Let_def)
      then show ?thesis
        by (rule handler) (use s2 in simp_all)
    next
      case Diverge
      with s2 show ?thesis by simp
    qed
  qed
qed

lemma sendAll_result:
  "sendAll parts env s = (r, s') \<Longrightarrow>
     r \<noteq> Diverge \<and> targetChannel s' = targetChannel s \<and> rcon s' = rcon s \<and>
     (\<exists>evs. trace s' = trace s @ evs \<and> sleeps evs = [] \<and> presences evs = [] \<and>
        topicWrites evs = [] \<and> RconSend COMMAND \<notin> set evs)"
proof (induction parts arbitrary: s)
  case Nil
  then show ?case by (auto simp: io_return_def)
next
  case (Cons part parts)
  show ?case
  proof (cases "env (trace s) (ChannelSend part)")
    case (Fault e)
    with Cons.prems show ?thesis
      by (auto simp: io_then_def io_bind_def perform_def)
  next
    case (Reply v)
    with Cons.prems
    have "sendAll parts env (s\<lparr>trace := trace s @ [ChannelSend part]\<rparr>) = (r, s')"
      by (simp add: io_then_def io_bind_def perform_def)
    from Cons.IH [OF this] show ?thesis by auto
  qed
qed

lemma publish_blank:
  "trim (orEmpty response) = [] \<Longrightarrow>
     publish response env s = (Return (), s\<lparr>trace := trace s @ [Log ''response empty'']\<rparr>)"
  by (simp add: publish_def emit_def)

lemma publish_result:
  assumes "publish response env s = (r, s')"
  shows "r \<noteq> Diverge \<and> targetChannel s' = targetChannel s \<and> rcon s' = rcon s \<and>
     (\<exists>evs. trace s' = trace s @ evs \<and> sleeps evs = [] \<and> presences evs = [] \<and>
        topicWrites evs = [] \<and> RconSend COMMAND \<notin> set evs)"
proof (cases "trim (orEmpty response) = [] \<or> targetChannel s = None \<or> onlyWhiteSpace response")
  case True
  with assms show ?thesis
    by (auto simp: publish_def Let_def io_defs split: option.splits if_splits)
next
  case False
  then obtain ch where ch: "targetChannel s = Some ch" by auto
  obtain parts where parts: "splitMessage (trim (orEmpty response)) defaultMaxLen = Some parts"
    using splitMessage_default_returns by blast
  define s1 where "s1 = s\<lparr>trace := trace s @ [Log ''response:'', Log (orEmpty response)]\<rparr>"
  from assms False ch parts have "sendAll parts env s1 = (r, s')"
    by (simp add: publish_def Let_def io_then_def io_bind_def emit_def s1_def)
  from sendAll_result [OF this] show ?thesis
    by (auto simp: s1_def)
qed

lemma pollOnce_try_connect_fault:
  "env (trace s @ [Log (pollingMessage cfg)]) Connect = Fault e \<Longrightarrow>
     pollOnce_try cfg env s
       = (Throw e, s\<lparr>trace := trace s @ [Log (pollingMessage cfg), Connect]\<rparr>)"
  by (simp add: pollOnce_try_def io_then_def io_bind_def emit_def perform_def)

lemma pollOnce_try_connected:
  "env (trace s @ [Log (pollingMessage cfg)]) Connect = Reply v \<Longrightarrow>
     pollOnce_try cfg env s
       = io_then queryPlayers (io_bind (perform (RconSend COMMAND)) publish) env
           (s\<lparr>trace := trace s @ [Log (pollingMessage cfg), Connect], rcon := True\<rparr>)"
  by (simp add: pollOnce_try_def io_then_def io_bind_def emit_def perform_def)

lemma after_connect_result:
  assumes "io_then queryPlayers (io_bind (perform (RconSend COMMAND)) publish) env s = (r, s')"
  shows "r \<noteq> Diverge \<and> rcon s' = rcon s"
proof -
  obtain rq s1 where q: "queryPlayers env s = (rq, s1)"
    by (cases "queryPlayers env s")
  from queryPlayers_result [OF q] have q1: "rq \<noteq> Diverge" "rcon s1 = rcon s" by simp_all
  show ?thesis
  proof (cases rq)
    case (Return u)
    show ?thesis
    proof (cases "env (trace s1) (RconSend COMMAND)")
      case (Fault e)
      with assms q Return q1 show ?thesis
        by (auto simp: io_then_def io_bind_def perform_def)
    next
      case (Reply resp)
      with assms q Return
      have "publish resp env (s1\<lparr>trace := trace s1 @ [RconSend COMMAND]\<rparr>) = (r, s')"
        by (simp add: io_then_def io_bind_def perform_def)
      from publish_result [OF this] q1 show ?thesis by simp
    qed
  next
    case (Throw e)
    with assms q q1 show ?thesis
      by (auto simp: io_then_def io_bind_def)
  next
    case Diverge
    with q1 show ?thesis by simp
  qed
qed

lemma pollOnce_try_result:
  assumes "pollOnce_try cfg env s = (r, s')"
  shows "r \<noteq> Diverge"
proof (cases "env (trace s @ [Log (pollingMessage cfg)]) Connect")
  case (Fault e)
  from pollOnce_try_connect_fault [of env s cfg e, OF this] assms show ?thesis by simp
next
  case (Reply v)
  from pollOnce_try_connected [of env s cfg v, OF this] assms after_connect_result show ?thesis
    by metis
qed

text \<open>
  C1. Whatever the environment answers (a fault of the connect attempt, of a query, of a
  presence or topic update, of a channel send or of closing the session, or no fault at
  all), \<^verbatim>\<open>pollOnce\<close> returns normally: its outcome is never a thrown fault, and it does
  not hang.
\<close>

theorem pollOnce_returns: "\<exists>s'. pollOnce cfg env s = (Return (), s')"
proof -
  obtain r s1 where t: "pollOnce_try cfg env (s\<lparr>rcon := False\<rparr>) = (r, s1)"
    by (cases "pollOnce_try cfg env (s\<lparr>rcon := False\<rparr>)")
  from pollOnce_try_result [OF t] have "r \<noteq> Diverge" .
  with t show ?thesis
    by (cases r) (simp_all add: pollOnce_eq)
qed

theorem pollOnce_returns_witness:
  "\<exists>s'. pollOnce cfg_example env_connect_closed state_unresolved = (Return (), s')"
  by (rule pollOnce_returns)

lemma trim_blank:
  assumes "list_all isWhiteSpace r"
  shows "trim r = []"
  using assms by (auto simp: trim_def list_all_iff dest: set_dropWhileD)

lemma pollOnce_tail:
  assumes "pollOnce_try cfg env (s\<lparr>rcon := False\<rparr>) = (r1, s1)"
  shows "\<exists>s' tail. pollOnce cfg env s = (Return (), s') \<and> trace s' = trace s1 @ tail \<and>
           presences tail = [] \<and> topicWrites tail = [] \<and> sends tail = [] \<and>
           RconSend COMMAND \<notin> set tail"
proof -
  from pollOnce_try_result [OF assms] have "r1 \<noteq> Diverge" .
  with assms show ?thesis
    by (cases r1) (auto simp: pollOnce_eq pollOnce_catch_eq pollOnce_finally_eq)
qed

lemma primary_result:
  assumes "io_bind (perform (RconSend COMMAND)) publish env s = (r, s')"
  shows "r \<noteq> Diverge \<and> rcon s' = rcon s \<and>
         (\<exists>evs. trace s' = trace s @ RconSend COMMAND # evs \<and> presences evs = [] \<and>
            topicWrites evs = [] \<and> RconSend COMMAND \<notin> set evs)"
proof (cases "env (trace s) (RconSend COMMAND)")
  case (Fault e)
  with assms show ?thesis
    by (auto simp: io_bind_def perform_def)
next
  case (Reply resp)
  with assms have "publish resp env (s\<lparr>trace := trace s @ [RconSend COMMAND]\<rparr>) = (r, s')"
    by (simp add: io_bind_def perform_def)
  from publish_result [OF this] show ?thesis by auto
qed

lemma split_at_unique:
  "xs @ a # ys = xs' @ a # ys' \<Longrightarrow> a \<notin> set xs \<Longrightarrow> a \<notin> set ys \<Longrightarrow> xs' = xs"
proof (induction xs arbitrary: xs')
  case Nil
  then show ?case by (cases xs') auto
next
  case (Cons x xs)
  then show ?case by (cases xs') auto
qed

text \<open>
  C7. Take a poll that issues the event command, after the events \<open>before\<close> of the
  poll, and let the environment answer the command there with a response that is null,
  empty or white space only; what it would answer anywhere else does not matter. The
  poll returns normally, no message is sent to the channel and no sleep takes place; the
  log says that the response was empty.
\<close>

theorem quiet_cycle:
  assumes run: "pollOnce cfg env s = (r, s')"
    and issued: "emitted s s' = before @ RconSend COMMAND # after"
    and answer: "env (trace s @ before) (RconSend COMMAND) = Reply resp"
    and blank: "list_all isWhiteSpace (orEmpty resp)"
  shows "r = Return () \<and> sends (emitted s s') = [] \<and> sleeps (emitted s s') = [] \<and>
         Log ''response empty'' \<in> set (emitted s s')"
proof (cases "env (trace s @ [Log (pollingMessage cfg)]) Connect")
  case (Fault e)
  from pollOnce_try_connect_fault [of env "s\<lparr>rcon := False\<rparr>" cfg e] Fault
  have "pollOnce_try cfg env (s\<lparr>rcon := False\<rparr>)
      = (Throw e, s\<lparr>rcon := False, trace := trace s @ [Log (pollingMessage cfg), Connect]\<rparr>)"
    by simp
  with run have "emitted s s' = [Log (pollingMessage cfg), Connect,
         if isConnectionClosed e then Log ''Connection closed.''
         else LogError ''RCON poll error:'' e,
         Log ''waiting 1 minute...'', Sleep 60000]"
    by (auto simp: pollOnce_eq pollOnce_catch_eq pollOnce_finally_eq)
  moreover from issued have "RconSend COMMAND \<in> set (emitted s s')" by simp
  ultimately show ?thesis by (simp split: if_splits)
next
  case (Reply v)
  define s2 where "s2 = s\<lparr>trace := trace s @ [Log (pollingMessage cfg), Connect], rcon := True\<rparr>"
  from pollOnce_try_connected [of env "s\<lparr>rcon := False\<rparr>" cfg v] Reply
  have tr: "pollOnce_try cfg env (s\<lparr>rcon := False\<rparr>)
      = io_then queryPlayers (io_bind (perform (RconSend COMMAND)) publish) env s2"
    by (simp add: s2_def)
  obtain rq s3 where q: "queryPlayers env s2 = (rq, s3)"
    by (cases "queryPlayers env s2")
  from queryPlayers_result [OF q] obtain evs where
    q1: "rq \<noteq> Diverge" "rcon s3" "trace s3 = trace s @ [Log (pollingMessage cfg), Connect] @ evs"
      "sends evs = []" "sleeps evs = []" "RconSend COMMAND \<notin> set evs"
    by (auto simp: s2_def)
  show ?thesis
  proof (cases rq)
    case (Return u)
    obtain r1 s4 where t: "pollOnce_try cfg env (s\<lparr>rcon := False\<rparr>) = (r1, s4)"
      by (cases "pollOnce_try cfg env (s\<lparr>rcon := False\<rparr>)")
    with tr q Return have "io_bind (perform (RconSend COMMAND)) publish env s3 = (r1, s4)"
      by (simp add: io_then_def io_bind_def)
    from primary_result [OF this] obtain pevs where
      pevs: "trace s4 = trace s3 @ RconSend COMMAND # pevs" "RconSend COMMAND \<notin> set pevs"
      by blast
    from pollOnce_tail [OF t] run obtain tail where
      tail: "trace s' = trace s4 @ tail" "RconSend COMMAND \<notin> set tail"
      by auto
    have "emitted s s' = ([Log (pollingMessage cfg), Connect] @ evs) @
        RconSend COMMAND # (pevs @ tail)"
      using q1(3) pevs(1) tail(1) by simp
    with issued have "([Log (pollingMessage cfg), Connect] @ evs) @
        RconSend COMMAND # (pevs @ tail) = before @ RconSend COMMAND # after"
      by simp
    from split_at_unique [OF this] q1(6) pevs(2) tail(2)
    have "before = [Log (pollingMessage cfg), Connect] @ evs"
      by simp
    with answer q1(3) have resp: "env (trace s3) (RconSend COMMAND) = Reply resp"
      by simp
    from tr q Return resp publish_blank [OF trim_blank [OF blank]]
    have "pollOnce_try cfg env (s\<lparr>rcon := False\<rparr>)
        = (Return (), s3\<lparr>trace := trace s3 @ [RconSend COMMAND, Log ''response empty'']\<rparr>)"
      by (simp add: io_then_def io_bind_def perform_def)
    with run q1 have "r = Return ()" "emitted s s' = [Log (pollingMessage cfg), Connect] @ evs @
        [RconSend COMMAND, Log ''response empty'', RconEnd]"
      by (auto simp: pollOnce_eq pollOnce_finally_eq)
    with q1 show ?thesis by simp
  next
    case (Throw e)
    with tr q have "pollOnce_try cfg env (s\<lparr>rcon := False\<rparr>) = (Throw e, s3)"
      by (simp add: io_then_def io_bind_def)
    with run q1 have "emitted s s' = [Log (pollingMessage cfg), Connect] @ evs @
        [if isConnectionClosed e then Log ''Connection closed.''
         else LogError ''RCON poll error:'' e,
         Log ''waiting 1 minute...'', Sleep 60000, RconEnd]"
      by (auto simp: pollOnce_eq pollOnce_catch_eq pollOnce_finally_eq)
    moreover from issued have "RconSend COMMAND \<in> set (emitted s s')" by simp
    ultimately show ?thesis using q1 by (simp split: if_splits)
  next
    case Diverge
    with q1 show ?thesis by simp
  qed
qed

theorem quiet_cycle_witness:
  "emitted state_ready (snd (pollOnce cfg_example env_quiet_then_event state_ready)) =
     [Log ''polling 127.0.0.1:27015'', Connect, RconSend ''players'', SetPresence (Num 2),
      SetTopic (Num 2)] @ RconSend COMMAND # [Log ''response empty'', RconEnd] \<and>
   env_quiet_then_event
     (trace state_ready @
      [Log ''polling 127.0.0.1:27015'', Connect, RconSend ''players'', SetPresence (Num 2),
       SetTopic (Num 2)])
     (RconSend COMMAND) = Reply (Some ''   \<newline>  '') \<and>
   list_all isWhiteSpace (orEmpty (Some ''   \<newline>  '')) \<and>
   env_quiet_then_event (trace (snd (pollOnce cfg_example env_quiet_then_event state_ready)))
     (RconSend COMMAND) = Reply (Some ''Alice joined'') \<and>
   fst (pollOnce cfg_example env_quiet_then_event state_ready) = Return () \<and>
   sends (emitted state_ready (snd (pollOnce cfg_example env_quiet_then_event state_ready)))
     = [] \<and>
   sleeps (emitted state_ready (snd (pollOnce cfg_example env_quiet_then_event state_ready)))
     = []"
proof -
  have parse: "parsePlayerCount ''Players connected (2):\<newline>Alice\<newline>Bob'' = Num 2"
    by (simp add: parse_defs)
  have trimmed: "trim ''   \<newline>  '' = []"
    by (simp add: trim_def isWhiteSpace_def)
  have run: "pollOnce cfg_example env_quiet_then_event state_ready =
     (Return (), state_ready\<lparr>lastCount := Num 2, rcon := True,
        trace := [Log ''polling 127.0.0.1:27015'', Connect, RconSend ''players'',
                  SetPresence (Num 2), SetTopic (Num 2),
                  RconSend ''luacmd rconevents flush'', Log ''response empty'', RconEnd]\<rparr>)"
    by (simp add: run_defs parse trimmed env_quiet_then_event_def cfg_example_def
        state_ready_def)
  have issued: "emitted state_ready
       (snd (pollOnce cfg_example env_quiet_then_event state_ready)) =
     [Log ''polling 127.0.0.1:27015'', Connect, RconSend ''players'', SetPresence (Num 2),
      SetTopic (Num 2)] @ RconSend COMMAND # [Log ''response empty'', RconEnd]"
    unfolding run by (simp add: emitted_def state_ready_def COMMAND_def)
  have answer: "env_quiet_then_event
     (trace state_ready @
      [Log ''polling 127.0.0.1:27015'', Connect, RconSend ''players'', SetPresence (Num 2),
       SetTopic (Num 2)])
     (RconSend COMMAND) = Reply (Some ''   \<newline>  '')"
    by (simp add: env_quiet_then_event_def COMMAND_def state_ready_def)
  have blank: "list_all isWhiteSpace (orEmpty (Some ''   \<newline>  ''))"
    by (simp add: orEmpty_def isWhiteSpace_def)
  have later: "env_quiet_then_event
     (trace (snd (pollOnce cfg_example env_quiet_then_event state_ready)))
     (RconSend COMMAND) = Reply (Some ''Alice joined'')"
    unfolding run by (simp add: env_quiet_then_event_def COMMAND_def)
  from quiet_cycle [OF surjective_pairing issued answer blank] issued answer blank later
  show ?thesis by blast
qed




text \<open>
  C3, as the code has it. Let the connect attempt succeed and the players query throw.
  If the fault reads "Error: Connection closed", in any letter case, the presence update
  is attempted with the count 0; if that update succeeds, the topic updater is invoked
  with 0 and the event command is issued next. For any other fault the poll logs the
  fault as an error, attempts no presence and no topic update at all, and issues the
  event command next. In both cases the poll returns normally.
\<close>

theorem players_query_fault:
  assumes connect: "env (trace s @ [Log (pollingMessage cfg)]) Connect = Reply v"
    and players: "env (trace s @ [Log (pollingMessage cfg), Connect]) (RconSend ''players'') = Fault f"
    and run: "pollOnce cfg env s = (r, s')"
  shows "r = Return () \<and>
     (if isConnectionClosed f
      then (\<exists>rest. emitted s s' =
               [Log (pollingMessage cfg), Connect, RconSend ''players'', SetPresence (Num 0)] @ rest) \<and>
           (\<forall>w. env (trace s @ [Log (pollingMessage cfg), Connect, RconSend ''players''])
                   (SetPresence (Num 0)) = Reply w \<longrightarrow>
              (let s2 = s\<lparr>rcon := True,
                          trace := trace s @ [Log (pollingMessage cfg), Connect,
                                              RconSend ''players'', SetPresence (Num 0)]\<rparr>
               in \<exists>rest. emitted s s' =
                    [Log (pollingMessage cfg), Connect, RconSend ''players'',
                     SetPresence (Num 0)] @
                    emitted s2 (snd (updateChannelTopicIfChanged (Num 0) env s2)) @
                    RconSend COMMAND # rest))
      else (\<exists>rest. emitted s s' =
               [Log (pollingMessage cfg), Connect, RconSend ''players'',
                LogError ''RCON poll error:'' f, RconSend COMMAND] @ rest) \<and>
           presences (emitted s s') = [] \<and> topicWrites (emitted s s') = [])"
proof -
  define p where "p = pollingMessage cfg"
  define s1 where "s1 = s\<lparr>trace := trace s @ [Log p, Connect, RconSend ''players''], rcon := True\<rparr>"
  define handler where "handler =
     (if isConnectionClosed f
      then io_then (setPresence (Num 0)) (updateChannelTopicIfChanged (Num 0))
      else emit (LogError ''RCON poll error:'' f))"
  have q: "queryPlayers env (s\<lparr>trace := trace s @ [Log p, Connect], rcon := True\<rparr>) = handler env s1"
    using players by (simp add: queryPlayers_def try_catch_def io_bind_def perform_def s1_def p_def handler_def)
  from pollOnce_try_connected [of env "s\<lparr>rcon := False\<rparr>" cfg v] connect
  have tr: "pollOnce_try cfg env (s\<lparr>rcon := False\<rparr>)
      = io_then (handler) (io_bind (perform (RconSend COMMAND)) publish) env s1"
    using q by (simp add: p_def io_then_def io_bind_def)
  obtain r1 s4 where t: "pollOnce_try cfg env (s\<lparr>rcon := False\<rparr>) = (r1, s4)"
    by (cases "pollOnce_try cfg env (s\<lparr>rcon := False\<rparr>)")
  from pollOnce_tail [OF t] run obtain tail where
    tail: "r = Return ()" "trace s' = trace s4 @ tail" "presences tail = []" "topicWrites tail = []"
    by auto
  show ?thesis
  proof (cases "isConnectionClosed f")
    case False
    define s2 where "s2 = s1\<lparr>trace := trace s1 @ [LogError ''RCON poll error:'' f]\<rparr>"
    from False tr t have "io_bind (perform (RconSend COMMAND)) publish env s2 = (r1, s4)"
      by (simp add: handler_def io_then_def io_bind_def emit_def s2_def)
    from primary_result [OF this] obtain evs where
      "trace s4 = trace s2 @ RconSend COMMAND # evs" "presences evs = []" "topicWrites evs = []"
      by blast
    with tail have "emitted s s' = [Log p, Connect, RconSend ''players'',
                LogError ''RCON poll error:'' f, RconSend COMMAND] @ evs @ tail"
       "presences (evs @ tail) = []" "topicWrites (evs @ tail) = []"
      by (simp_all add: s2_def s1_def)
    with False tail(1) show ?thesis
      by (simp add: p_def)
  next
    case True
    define s2 where "s2 = s1\<lparr>trace := trace s1 @ [SetPresence (Num 0)]\<rparr>"
    have s2_eq: "s2 = s\<lparr>trace := trace s @ [Log p, Connect, RconSend ''players'', SetPresence (Num 0)],
        rcon := True\<rparr>"
      by (simp add: s2_def s1_def)
    show ?thesis
    proof (cases "env (trace s1) (SetPresence (Num 0))")
      case (Fault e)
      with True tr t have "s4 = s2"
        by (simp add: handler_def io_then_def io_bind_def setPresence_eq s2_def)
      with tail have "emitted s s' = [Log p, Connect, RconSend ''players'', SetPresence (Num 0)] @ tail"
        by (simp add: s2_eq)
      with True tail(1) Fault show ?thesis
        by (simp add: p_def s1_def)
    next
      case (Reply w)
      obtain ru s3 where u: "updateChannelTopicIfChanged (Num 0) env s2 = (ru, s3)"
        by (cases "updateChannelTopicIfChanged (Num 0) env s2")
      from update_result [OF u] obtain tevs where
        tevs: "ru = Return ()" "trace s3 = trace s2 @ tevs" by auto
      from True Reply tr t u tevs(1)
      have "io_bind (perform (RconSend COMMAND)) publish env s3 = (r1, s4)"
        by (simp add: handler_def io_then_def io_bind_def setPresence_eq s2_def)
      from primary_result [OF this] obtain evs where
        "trace s4 = trace s3 @ RconSend COMMAND # evs" by blast
      with tail tevs have "emitted s s' = [Log p, Connect, RconSend ''players'', SetPresence (Num 0)] @
          tevs @ RconSend COMMAND # (evs @ tail)"
        by (simp add: s2_eq)
      moreover have "emitted s2 (snd (updateChannelTopicIfChanged (Num 0) env s2)) = tevs"
        using u tevs by simp
      ultimately show ?thesis
        using True tail(1) Reply by (auto simp: p_def s2_eq s1_def Let_def)
    qed
  qed
qed

theorem players_query_fault_witness:
  "(env_players_closed (trace state_ready @ [Log (pollingMessage cfg_example)]) Connect
     = Reply None \<and>
   env_players_closed (trace state_ready @ [Log (pollingMessage cfg_example), Connect])
     (RconSend ''players'') = Fault ''Error: Connection closed'' \<and>
   isConnectionClosed ''Error: Connection closed'' \<and>
   env_players_closed
     (trace state_ready @ [Log (pollingMessage cfg_example), Connect, RconSend ''players''])
     (SetPresence (Num 0)) = Reply None \<and>
   fst (pollOnce cfg_example env_players_closed state_ready) = Return () \<and>
   (\<exists>rest. emitted state_ready (snd (pollOnce cfg_example env_players_closed state_ready)) =
      [Log ''polling 127.0.0.1:27015'', Connect, RconSend ''players'', SetPresence (Num 0),
       SetTopic (Num 0), RconSend COMMAND] @ rest)) \<and>
   (env_players_timeout (trace state_ready @ [Log (pollingMessage cfg_example)]) Connect
     = Reply None \<and>
   env_players_timeout (trace state_ready @ [Log (pollingMessage cfg_example), Connect])
     (RconSend ''players'') = Fault ''Error: Timeout for packet id 1'' \<and>
   \<not> isConnectionClosed ''Error: Timeout for packet id 1'' \<and>
   fst (pollOnce cfg_example env_players_timeout state_ready) = Return () \<and>
   presences (emitted state_ready (snd (pollOnce cfg_example env_players_timeout state_ready)))
     = [] \<and>
   topicWrites (emitted state_ready (snd (pollOnce cfg_example env_players_timeout state_ready)))
     = [])"
proof -
  have closed: "env_players_closed (trace state_ready @ [Log (pollingMessage cfg_example)]) Connect
     = Reply None \<and>
   env_players_closed (trace state_ready @ [Log (pollingMessage cfg_example), Connect])
     (RconSend ''players'') = Fault ''Error: Connection closed'' \<and>
   isConnectionClosed ''Error: Connection closed'' \<and>
   env_players_closed
     (trace state_ready @ [Log (pollingMessage cfg_example), Connect, RconSend ''players''])
     (SetPresence (Num 0)) = Reply None \<and>
   fst (pollOnce cfg_example env_players_closed state_ready) = Return () \<and>
   (\<exists>rest. emitted state_ready (snd (pollOnce cfg_example env_players_closed state_ready)) =
      [Log ''polling 127.0.0.1:27015'', Connect, RconSend ''players'', SetPresence (Num 0),
       SetTopic (Num 0), RconSend COMMAND] @ rest)"
  proof -
    have c: "env_players_closed (trace state_ready @ [Log (pollingMessage cfg_example)]) Connect
       = Reply None"
      by (simp add: env_players_closed_def)
    have p: "env_players_closed (trace state_ready @ [Log (pollingMessage cfg_example), Connect])
       (RconSend ''players'') = Fault ''Error: Connection closed''"
      by (simp add: env_players_closed_def)
    have n: "isConnectionClosed ''Error: Connection closed''"
      by (simp add: isConnectionClosed_def toLowerCase_def toLowerChar_def isUpper_def)
    have q: "env_players_closed
       (trace state_ready @ [Log (pollingMessage cfg_example), Connect, RconSend ''players''])
       (SetPresence (Num 0)) = Reply None"
      by (simp add: env_players_closed_def)
    have u: "emitted
        (state_ready\<lparr>rcon := True,
           trace := trace state_ready @ [Log (pollingMessage cfg_example), Connect,
                      RconSend ''players'', SetPresence (Num 0)]\<rparr>)
        (snd (updateChannelTopicIfChanged (Num 0) env_players_closed
           (state_ready\<lparr>rcon := True,
              trace := trace state_ready @ [Log (pollingMessage cfg_example), Connect,
                         RconSend ''players'', SetPresence (Num 0)]\<rparr>))) = [SetTopic (Num 0)]"
      by (simp add: updateChannelTopicIfChanged_def io_defs env_players_closed_def
          state_ready_def emitted_def)
    from players_query_fault [OF c p surjective_pairing] n q
    have "fst (pollOnce cfg_example env_players_closed state_ready) = Return ()"
      and "\<exists>rest. emitted state_ready (snd (pollOnce cfg_example env_players_closed state_ready)) =
        [Log (pollingMessage cfg_example), Connect, RconSend ''players'', SetPresence (Num 0)] @
        [SetTopic (Num 0)] @ RconSend COMMAND # rest"
      unfolding Let_def u [symmetric] by (simp_all add: Let_def)
    with c p n q show ?thesis
      by (simp add: pollingMessage_def cfg_example_def)
  qed
  have timeout: "env_players_timeout (trace state_ready @ [Log (pollingMessage cfg_example)]) Connect
     = Reply None \<and>
   env_players_timeout (trace state_ready @ [Log (pollingMessage cfg_example), Connect])
     (RconSend ''players'') = Fault ''Error: Timeout for packet id 1'' \<and>
   \<not> isConnectionClosed ''Error: Timeout for packet id 1'' \<and>
   fst (pollOnce cfg_example env_players_timeout state_ready) = Return () \<and>
   presences (emitted state_ready (snd (pollOnce cfg_example env_players_timeout state_ready)))
     = [] \<and>
   topicWrites (emitted state_ready (snd (pollOnce cfg_example env_players_timeout state_ready)))
     = []"
  proof -
    have c: "env_players_timeout (trace state_ready @ [Log (pollingMessage cfg_example)]) Connect
       = Reply None"
      by (simp add: env_players_timeout_def)
    have p: "env_players_timeout (trace state_ready @ [Log (pollingMessage cfg_example), Connect])
       (RconSend ''players'') = Fault ''Error: Timeout for packet id 1''"
      by (simp add: env_players_timeout_def)
    have n: "\<not> isConnectionClosed ''Error: Timeout for packet id 1''"
      by (simp add: isConnectionClosed_def toLowerCase_def toLowerChar_def isUpper_def)
    from players_query_fault [OF c p surjective_pairing] n c p
    show ?thesis by simp
  qed
  from closed timeout show ?thesis by (rule conjI)
qed

text \<open>
  C3 as stated fails for a fault other than a closed connection: after a timeout of the
  players query the poll goes on to the event command, but it has set no presence and
  written no topic, with 0 or any other count.
\<close>

theorem players_timeout_counterexample:
  "env_players_timeout [Log ''polling 127.0.0.1:27015'', Connect] (RconSend ''players'')
     = Fault ''Error: Timeout for packet id 1'' \<and>
   pollOnce cfg_example env_players_timeout state_ready =
     (Return (), state_ready\<lparr>rcon := True,
        trace := [Log ''polling 127.0.0.1:27015'', Connect, RconSend ''players'',
                  LogError ''RCON poll error:'' ''Error: Timeout for packet id 1'',
                  RconSend ''luacmd rconevents flush'', Log ''response empty'', RconEnd]\<rparr>) \<and>
   presences (trace (snd (pollOnce cfg_example env_players_timeout state_ready))) = [] \<and>
   topicWrites (trace (snd (pollOnce cfg_example env_players_timeout state_ready))) = []"
proof -
  have run: "pollOnce cfg_example env_players_timeout state_ready =
     (Return (), state_ready\<lparr>rcon := True,
        trace := [Log ''polling 127.0.0.1:27015'', Connect, RconSend ''players'',
                  LogError ''RCON poll error:'' ''Error: Timeout for packet id 1'',
                  RconSend ''luacmd rconevents flush'', Log ''response empty'', RconEnd]\<rparr>)"
    by (simp add: run_defs trim_def env_players_timeout_def cfg_example_def state_ready_def)
  show ?thesis
    unfolding run by (simp add: env_players_timeout_def)
qed

section \<open>Parsing the player count: results\<close>

text \<open>Lower case, upper case and the character classes of the pattern.\<close>

lemma canon_lower: "Canonicalize (toLowerChar c) = Canonicalize c"
  by (cases c) (simp add: Canonicalize_def toLowerChar_def isLower_def isUpper_def)

lemma ws_lower: "isWhiteSpace (toLowerChar c) = isWhiteSpace c"
  by (cases c) (simp add: isWhiteSpace_def toLowerChar_def isUpper_def)

lemma lower_canon: "toLowerCase w = pat \<Longrightarrow> map Canonicalize w = map Canonicalize pat"
  by (auto simp: toLowerCase_def canon_lower)

lemma matchLiteral_ci:
  "map Canonicalize w = map Canonicalize pat \<Longrightarrow> matchLiteral pat (w @ rest) = Some rest"
  by (induction pat arbitrary: w) auto

lemma not_ws_letters:
  "\<not> isWhiteSpace (CHR ''c'')" "\<not> isWhiteSpace (CHR ''('')" "\<not> isWhiteSpace (CHR ''p'')"
  "isWhiteSpace (CHR '' '')" "\<not> isDigit (CHR '')'')" "\<not> isDigit (CHR ''p'')"
  by (simp_all add: isWhiteSpace_def isDigit_def)

lemma takeWhile_run: "list_all P ds \<Longrightarrow> \<not> P x \<Longrightarrow> takeWhile P (ds @ x # rest) = ds"
  by (induction ds) auto

lemma dropWhile_run: "list_all P ds \<Longrightarrow> \<not> P x \<Longrightarrow> dropWhile P (ds @ x # rest) = x # rest"
  by (induction ds) auto

lemma canon_P: "Canonicalize x = CHR ''P'' \<Longrightarrow> \<not> isWhiteSpace x \<and> \<not> isDigit x"
  by (cases x) (auto simp: Canonicalize_def isLower_def isWhiteSpace_def isDigit_def split: if_splits)

lemma canon_consts:
  "Canonicalize (CHR ''l'') = CHR ''L''" "Canonicalize (CHR ''a'') = CHR ''A''"
  "Canonicalize (CHR ''y'') = CHR ''Y''" "Canonicalize (CHR ''e'') = CHR ''E''"
  "Canonicalize (CHR ''r'') = CHR ''R''" "Canonicalize (CHR ''s'') = CHR ''S''"
  "Canonicalize (CHR ''c'') = CHR ''C''" "Canonicalize (CHR ''o'') = CHR ''O''"
  "Canonicalize (CHR ''n'') = CHR ''N''" "Canonicalize (CHR ''t'') = CHR ''T''"
  "Canonicalize (CHR ''d'') = CHR ''D''" "Canonicalize (CHR ''('') = CHR ''(''"
  "Canonicalize (CHR '')'') = CHR '')''" "Canonicalize (CHR ''p'') = CHR ''P''"
  by (simp_all add: Canonicalize_def isLower_def)

text \<open>The pattern matches at a header, whatever the case of its two words.\<close>

lemma matchHeaderAt_header:
  assumes w1: "toLowerCase w1 = ''players''" and w2: "toLowerCase w2 = ''connected''"
    and ds: "ds \<noteq> []" "list_all isDigit ds"
  shows "matchHeaderAt (w1 @ '' '' @ w2 @ '' ('' @ ds @ ''):'' @ post) = Some ds"
proof -
  from w1 obtain u c where u: "w1 = u @ [c]" "toLowerCase u = ''player''" "toLowerChar c = CHR ''s''"
    by (auto simp: toLowerCase_def map_eq_Cons_conv)
  from w2 obtain d w2' where d: "w2 = d # w2'" "toLowerChar d = CHR ''c''"
    by (auto simp: toLowerCase_def map_eq_Cons_conv)
  have c: "Canonicalize c = Canonicalize (CHR ''s'')"
    using canon_lower [of c] u(3) by simp
  have nd: "\<not> isWhiteSpace d"
    using ws_lower [of d] d(2) not_ws_letters by simp
  define r4 where "r4 = ds @ ''):'' @ post"
  define r3 where "r3 = '' ('' @ r4"
  define r2 where "r2 = '' '' @ w2 @ r3"
  have 1: "matchLiteral ''player'' (w1 @ r2) = Some (c # r2)"
    using matchLiteral_ci [OF lower_canon [OF u(2)], of "c # r2"] u(1) by simp
  have 2: "matchOptional (CHR ''s'') (c # r2) = r2"
    using c by (simp add: matchOptional_def)
  have 3: "takeWhile isWhiteSpace r2 \<noteq> []" "dropWhile isWhiteSpace r2 = w2 @ r3"
    using nd d(1) not_ws_letters by (simp_all add: r2_def)
  have 4: "matchLiteral ''connected'' (w2 @ r3) = Some r3"
    by (rule matchLiteral_ci [OF lower_canon [OF w2]])
  have 5: "dropWhile isWhiteSpace r3 = CHR ''('' # r4"
    using not_ws_letters by (simp add: r3_def)
  have 6: "matchLiteral ''('' (CHR ''('' # r4) = Some r4"
    by simp
  have 7: "takeWhile isDigit r4 = ds" "dropWhile isDigit r4 = CHR '')'' # CHR '':'' # post"
    using ds(2) not_ws_letters by (simp_all add: r4_def takeWhile_run dropWhile_run)
  have 8: "matchLiteral '')'' (CHR '')'' # CHR '':'' # post) = Some (CHR '':'' # post)"
    by simp
  have "matchHeaderAt (w1 @ r2) = Some ds"
    unfolding matchHeaderAt_def 1 using ds(1)
    by (simp add: 2 3 4 5 6 7 8 del: matchLiteral.simps)
  then show ?thesis
    by (simp add: r2_def r3_def r4_def)
qed

text \<open>
  A match that starts before a header cannot run into it: the header begins with a
  \<open>p\<close>, which the pattern accepts at its first position only.
\<close>

lemma matchLiteral_append:
  assumes "\<And>q. q \<in> set pat \<Longrightarrow> Canonicalize x \<noteq> Canonicalize q"
  shows "matchLiteral pat (u @ x # v) = map_option (\<lambda>r. r @ x # v) (matchLiteral pat u)"
  using assms
proof (induction pat arbitrary: u)
  case Nil
  then show ?case by simp
next
  case (Cons q qs)
  then show ?case by (cases u) auto
qed

lemma matchHeaderAt_append:
  assumes x: "Canonicalize x = CHR ''P''" and u: "u \<noteq> []"
  shows "matchHeaderAt (u @ x # v) = matchHeaderAt u"
proof -
  from canon_P [OF x] have nx: "\<not> isWhiteSpace x" "\<not> isDigit x" by simp_all
  have lit: "matchLiteral pat (w @ x # v) = map_option (\<lambda>r. r @ x # v) (matchLiteral pat w)"
    if "pat \<in> {''layer'', ''connected'', ''('', '')''}" for pat w
    using that by (intro matchLiteral_append) (auto simp: x canon_consts)
  have first: "matchLiteral ''player'' (u @ x # v)
      = map_option (\<lambda>r. r @ x # v) (matchLiteral ''player'' u)"
    using u lit [of "''layer''"] by (cases u) simp_all
  have opt: "matchOptional (CHR ''s'') (w @ x # v) = matchOptional (CHR ''s'') w @ x # v" for w
    by (cases w) (simp_all add: matchOptional_def x canon_consts)
  have tw: "takeWhile P (w @ x # v) = takeWhile P w" if "\<not> P x" for P w
    using that by (induction w) simp_all
  have dw: "dropWhile P (w @ x # v) = dropWhile P w @ x # v" if "\<not> P x" for P w
    using that by (induction w) simp_all
  show ?thesis
    unfolding matchHeaderAt_def first
    by (simp add: opt tw dw nx lit Let_def split: option.splits del: matchLiteral.simps)
qed

lemma matchHeader_first:
  assumes "matchHeader pre = None" and "matchHeaderAt (x # v) = Some ds"
    and "Canonicalize x = CHR ''P''"
  shows "matchHeader (pre @ x # v) = Some ds"
  using assms(1)
proof (induction pre)
  case Nil
  with assms(2) show ?case by simp
next
  case (Cons c pre)
  then have "matchHeaderAt (c # pre) = None" "matchHeader pre = None"
    by (simp_all split: option.splits)
  with Cons.IH matchHeaderAt_append [OF assms(3), of "c # pre" v] show ?case
    by simp
qed

lemma roundToDouble_exact:
  assumes "n \<le> 2 ^ 53"
  shows "roundToDouble n = Num (int n)"
proof (cases "n < 2 ^ 53")
  case True
  then show ?thesis by (simp add: roundToDouble_def)
next
  case False
  with assms have n: "n = 9007199254740992" by simp
  have "bitLength 9007199254740992 = 54"
    by (simp add: bitLength.simps)
  then show ?thesis
    unfolding n by (simp add: roundToDouble_def Let_def)
qed

text \<open>
  C5, as the code has it. Let the text hold a header "Players connected (N):", its two
  words in any letter case, with no match of the header pattern before it. Then
  \<^verbatim>\<open>parsePlayerCount\<close> returns \<^verbatim>\<open>Number\<close> of the digits of \<open>N\<close>, that is \<open>N\<close> rounded
  to the nearest double, whatever follows the header; this is \<open>N\<close> itself when
  \<open>N \<le> 2 ^ 53\<close>.
\<close>

theorem parsePlayerCount_header:
  assumes pre: "matchHeader pre = None"
    and w1: "toLowerCase w1 = ''players''" and w2: "toLowerCase w2 = ''connected''"
    and ds: "ds \<noteq> []" "list_all isDigit ds"
  shows "parsePlayerCount (pre @ w1 @ '' '' @ w2 @ '' ('' @ ds @ ''):'' @ post)
           = roundToDouble (digitsValue ds) \<and>
         (digitsValue ds \<le> 2 ^ 53 \<longrightarrow>
            parsePlayerCount (pre @ w1 @ '' '' @ w2 @ '' ('' @ ds @ ''):'' @ post)
              = Num (int (digitsValue ds)))"
proof -
  from w1 obtain x w1' where x: "w1 = x # w1'" "toLowerChar x = CHR ''p''"
    by (auto simp: toLowerCase_def map_eq_Cons_conv)
  have cx: "Canonicalize x = CHR ''P''"
    using canon_lower [of x] x(2) by (simp add: canon_consts)
  define v where "v = w1' @ '' '' @ w2 @ '' ('' @ ds @ ''):'' @ post"
  have "matchHeaderAt (x # v) = Some ds"
    using matchHeaderAt_header [OF w1 w2 ds, of post] by (simp add: x(1) v_def)
  from matchHeader_first [OF pre this cx]
  have "matchHeader (pre @ w1 @ '' '' @ w2 @ '' ('' @ ds @ ''):'' @ post) = Some ds"
    by (simp add: x(1) v_def)
  then have "parsePlayerCount (pre @ w1 @ '' '' @ w2 @ '' ('' @ ds @ ''):'' @ post)
      = roundToDouble (digitsValue ds)"
    by (simp add: parsePlayerCount_def Number_digits_def)
  then show ?thesis
    by (simp add: roundToDouble_exact)
qed

theorem parsePlayerCount_header_witness:
  "matchHeader ''Server status'' = None \<and> toLowerCase ''PLAYERS'' = ''players'' \<and>
   toLowerCase ''Connected'' = ''connected'' \<and> ''12'' \<noteq> [] \<and> list_all isDigit ''12'' \<and>
   digitsValue ''12'' \<le> 2 ^ 53 \<and>
   parsePlayerCount
     (''Server status'' @ ''PLAYERS'' @ '' '' @ ''Connected'' @ '' ('' @ ''12'' @ ''):'' @
      ''\<newline>Alice'') = Num 12"
proof -
  have h: "matchHeader ''Server status'' = None" "toLowerCase ''PLAYERS'' = ''players''"
    "toLowerCase ''Connected'' = ''connected''" "''12'' \<noteq> []" "list_all isDigit ''12''"
    by (simp_all add: parse_defs)
  have v: "digitsValue ''12'' = 12" by (simp add: digitsValue_def)
  have b: "digitsValue ''12'' \<le> 2 ^ 53" unfolding v by simp
  from parsePlayerCount_header [OF h, of "''\<newline>Alice''"] b
  have "parsePlayerCount
     (''Server status'' @ ''PLAYERS'' @ '' '' @ ''Connected'' @ '' ('' @ ''12'' @ ''):'' @
      ''\<newline>Alice'') = Num (int (digitsValue ''12''))"
    by blast
  with h b show ?thesis
    by (simp only: v of_nat_numeral simp_thms)
qed

text \<open>
  C5 as stated fails where \<open>N\<close> is no double: for \<open>N = 2 ^ 53 + 1\<close> the result is
  \<open>2 ^ 53\<close>. It also needs the header to be the first match: a text with two headers
  yields the count of the first.
\<close>

theorem parsePlayerCount_rounds_counterexample:
  "digitsValue ''9007199254740993'' = 9007199254740993 \<and>
   parsePlayerCount ''Players connected (9007199254740993):'' = Num 9007199254740992 \<and>
   parsePlayerCount ''Player connected (5) Players connected (3):'' = Num 5"
proof -
  have b: "bitLength 9007199254740993 = 54"
    by (simp add: bitLength.simps)
  show ?thesis
    by (simp add: parse_defs b)
qed

text \<open>
  Splitting a text at its line ends gives back the lines it was joined from, up to a
  carriage return before the line feed, which trimming removes anyway.
\<close>

lemma splitLines_single: "CHR 0x0A \<notin> set l \<Longrightarrow> splitLines l = [l]"
  by (induction l rule: splitLines.induct) auto

lemma splitLines_line:
  "CHR 0x0A \<notin> set l \<Longrightarrow> splitLines (l @ CHR 0x0A # rest) = chomp l # splitLines rest"
proof (induction l)
  case Nil
  then show ?case by (cases rest) (simp_all add: chomp_def)
next
  case (Cons c l)
  then have c: "c \<noteq> CHR 0x0A" and l: "CHR 0x0A \<notin> set l" by auto
  note IH = Cons.IH [OF l]
  show ?case
  proof (cases l)
    case Nil
    with c IH show ?thesis by (simp add: chomp_def)
  next
    case (Cons d l')
    with l have d: "d \<noteq> CHR 0x0A" by auto
    from IH Cons c d show ?thesis
      by (simp add: chomp_def)
  qed
qed

lemma trim_snoc_ws:
  assumes "isWhiteSpace c"
  shows "trim (l @ [c]) = trim l"
proof (cases "list_all isWhiteSpace l")
  case True
  with assms have "list_all isWhiteSpace (l @ [c])" by simp
  with True show ?thesis by (simp only: trim_blank)
next
  case False
  with assms show ?thesis
    by (auto simp: trim_def dropWhile_append list_all_iff)
qed

lemma trim_chomp: "trim (chomp l) = trim l"
proof (cases "l \<noteq> [] \<and> last l = CHR 0x0D")
  case True
  then have "l = butlast l @ [CHR 0x0D]"
    using append_butlast_last_id [of l] by simp
  then have "trim l = trim (butlast l)"
    using trim_snoc_ws [of "CHR 0x0D" "butlast l"] by (simp add: isWhiteSpace_def)
  with True show ?thesis by (simp add: chomp_def)
next
  case False
  then show ?thesis by (auto simp: chomp_def)
qed

lemma trim_splitLines_joinLines:
  "\<forall>l\<in>set ls. CHR 0x0A \<notin> set l \<Longrightarrow> ls \<noteq> [] \<Longrightarrow>
     map trim (splitLines (joinLines ls)) = map trim ls"
  by (induction ls rule: joinLines.induct)
    (simp_all add: splitLines_single splitLines_line trim_chomp)

lemma nonEmptyLines_joinLines:
  assumes "\<forall>l\<in>set ls. CHR 0x0A \<notin> set l"
  shows "nonEmptyLines (joinLines ls) = filter (\<lambda>l. l \<noteq> []) (map trim ls)"
proof (cases "ls = []")
  case True
  then show ?thesis by (simp add: nonEmptyLines_def trim_def)
next
  case False
  with assms show ?thesis
    by (simp add: nonEmptyLines_def trim_splitLines_joinLines)
qed

text \<open>
  C6. For a text without a match of the header pattern, given by its lines,
  \<^verbatim>\<open>parsePlayerCount\<close> returns the number of lines that are not empty once trimmed,
  not counting the first of them when it contains "player" in any letter case: such a
  first line followed by \<open>k\<close> non-empty lines gives \<open>k\<close>, \<open>k\<close> non-empty lines without it
  give \<open>k\<close>, and no non-empty line gives 0.
\<close>

theorem parsePlayerCount_fallback:
  assumes "\<forall>l\<in>set ls. CHR 0x0A \<notin> set l"
    and "matchHeader (joinLines ls) = None"
  shows "parsePlayerCount (joinLines ls) =
     (case filter (\<lambda>l. l \<noteq> []) (map trim ls) of
        [] \<Rightarrow> Num 0
      | first # others \<Rightarrow>
          if includes_str (toLowerCase first) ''player'' then Num (int (length others))
          else Num (int (length others) + 1))"
  using assms(2)
  by (simp add: parsePlayerCount_def nonEmptyLines_joinLines [OF assms(1)] Let_def
      split: list.splits)

theorem parsePlayerCount_fallback_witness:
  "CHR 0x0A \<notin> set ''Players online:'' \<and> CHR 0x0A \<notin> set '' Alice '' \<and>
   CHR 0x0A \<notin> set [] \<and> CHR 0x0A \<notin> set ''Bob'' \<and>
   matchHeader (joinLines [''Players online:'', '' Alice '', '''', ''Bob'']) = None \<and>
   parsePlayerCount (joinLines [''Players online:'', '' Alice '', '''', ''Bob'']) = Num 2"
proof -
  have h: "\<forall>l\<in>set [''Players online:'', '' Alice '', '''', ''Bob'']. CHR 0x0A \<notin> set l"
    "matchHeader (joinLines [''Players online:'', '' Alice '', '''', ''Bob'']) = None"
    by (simp_all add: parse_defs)
  from parsePlayerCount_fallback [OF h] h show ?thesis
    by (simp add: trim_def isWhiteSpace_def toLowerCase_def toLowerChar_def isUpper_def)
qed

end
